theory Spec2Isabelle
  imports Complex_Main
begin

section \<open>Streaming reading client: data model\<close>

text \<open>
  The development follows two source files of the front end:
  \<^item> \<^verbatim>\<open>frontend/lib/api.ts\<close>, \<^verbatim>\<open>tarotAPI.createReadingStream\<close>: the line-buffering loop that
    turns the text of the streamed response into calls of the four callbacks;
  \<^item> \<^verbatim>\<open>frontend/app/page.tsx\<close>, \<^verbatim>\<open>HomePage\<close>: the four callbacks passed by
    \<^verbatim>\<open>handleSubmit\<close>, the typing interval and the card display effect.

  JavaScript strings are lists of characters. A value that may be \<^verbatim>\<open>undefined\<close> is an
  \<open>option\<close>. React state is a record; every \<^verbatim>\<open>setX\<close> call of a callback is applied in
  program order, which is the order in which React applies the batched updates.
\<close>

subsection \<open>Cards\<close>

datatype spread = three_card | celtic_cross

text \<open>An element of \<^verbatim>\<open>data.selected_cards\<close> as it arrives (\<^verbatim>\<open>card: any\<close>): every
  field the mapping reads may be missing.\<close>

record RawCard =
  raw_card_id :: "string option"
  raw_id :: "string option"
  raw_card_name_en :: "string option"
  raw_name :: "string option"
  raw_card_name_cn :: "string option"
  raw_position :: "string option"
  raw_position_order :: "int option"
  raw_is_reversed :: "bool option"
  raw_image_url :: "string option"

text \<open>\<^verbatim>\<open>interface CardData\<close>. Fields the mapping copies without a default stay optional.\<close>

record CardData =
  card_id :: "string option"
  card_name_en :: "string option"
  card_name_cn :: "string option"
  position :: "string option"
  position_order :: int
  is_reversed :: bool
  image_url :: "string option"

text \<open>\<^verbatim>\<open>a || b\<close> on strings that may be undefined: the empty string and
  \<^verbatim>\<open>undefined\<close> are falsy.\<close>

definition truthy_str :: "string option \<Rightarrow> bool" where
  "truthy_str a = (case a of None \<Rightarrow> False | Some s \<Rightarrow> s \<noteq> [])"

definition or_str :: "string option \<Rightarrow> string option \<Rightarrow> string option" where
  "or_str a b = (if truthy_str a then a else b)"

text \<open>The string behind a value already tested truthy.\<close>

definition str_of :: "string option \<Rightarrow> string" where
  "str_of a = (case a of None \<Rightarrow> [] | Some s \<Rightarrow> s)"

text \<open>\<^verbatim>\<open>card.position_order || 0\<close> and \<^verbatim>\<open>card.is_reversed || false\<close>.\<close>

definition or_zero :: "int option \<Rightarrow> int" where
  "or_zero a = (case a of None \<Rightarrow> 0 | Some n \<Rightarrow> (if n \<noteq> 0 then n else 0))"

definition or_false :: "bool option \<Rightarrow> bool" where
  "or_false a = (case a of None \<Rightarrow> False | Some b \<Rightarrow> (if b then b else False))"

text \<open>The arrow function of \<^verbatim>\<open>cardList.map\<close> in the \<^verbatim>\<open>cards_selected\<close> branch.\<close>

definition toCardData :: "RawCard \<Rightarrow> CardData" where
  "toCardData rc =
     \<lparr> card_id = or_str (raw_card_id rc) (raw_id rc),
       card_name_en = or_str (raw_card_name_en rc) (raw_name rc),
       card_name_cn = raw_card_name_cn rc,
       position = raw_position rc,
       position_order = or_zero (raw_position_order rc),
       is_reversed = or_false (raw_is_reversed rc),
       image_url = raw_image_url rc \<rparr>"

subsection \<open>Typed events: the callback invocations\<close>

text \<open>The payload of \<^verbatim>\<open>onProgress(step, data)\<close>, restricted to the fields the callback
  reads: \<^verbatim>\<open>data.text\<close>, \<^verbatim>\<open>data.selected_cards\<close>, \<^verbatim>\<open>data.cards\<close>,
  \<^verbatim>\<open>data.imagery_description\<close>.\<close>

record ProgressData =
  d_text :: "string option"
  d_selected_cards :: "RawCard list option"
  d_cards :: "RawCard list option"
  d_imagery_description :: "string option"

text \<open>The argument of \<^verbatim>\<open>onComplete(result)\<close>: \<^verbatim>\<open>result?.reading_id\<close> and
  \<^verbatim>\<open>result?.id\<close>; a \<^verbatim>\<open>null\<close> result has neither.\<close>

record CompleteData =
  r_reading_id :: "string option"
  r_id :: "string option"

datatype event =
    OnProgress string ProgressData
  | OnInterpretation string
  | OnComplete CompleteData
  | OnError string

subsection \<open>Component state\<close>

text \<open>Callbacks handed to \<^verbatim>\<open>setTimeout\<close> that change component state. The delay is kept
  in milliseconds with the callback.\<close>

datatype task = ShowImageryBox | ShowInterpretationBox

text \<open>The \<^verbatim>\<open>useState\<close> cells and the two refs of \<^verbatim>\<open>HomePage\<close> that the callbacks, the
  typing interval and the card display effect read or write. \<open>typingInterval\<close> says whether
  \<^verbatim>\<open>typingIntervalRef.current\<close> holds a running interval; \<open>timeouts\<close> lists the pending
  \<^verbatim>\<open>setTimeout\<close> callbacks in the order they were scheduled.\<close>

record HomeState =
  currentStep :: string
  error :: "string option"
  cards :: "CardData list"
  displayedCards :: "CardData list"
  spreadType :: spread
  readingId :: "string option"
  imageryDescription :: string
  interpretationDisplay :: string
  isImageryExpanded :: bool
  isInterpretationExpanded :: bool
  hasUserInteracted :: bool
  showImageryBox :: bool
  showInterpretationBox :: bool
  allCardsDisplayed :: bool
  interpretationBuffer :: string
  typingInterval :: bool
  timeouts :: "(nat \<times> task) list"

text \<open>The callbacks are created inside \<^verbatim>\<open>handleSubmit\<close>, so the state variables they
  mention by name (not through an updater function or a ref) are the values of the render in
  which the form was submitted. They do not change while the stream is processed.\<close>

record Closure =
  c_imageryDescription :: string
  c_interpretationDisplay :: string
  c_showInterpretationBox :: bool
  c_hasUserInteracted :: bool
  c_isImageryExpanded :: bool

definition closure_of :: "HomeState \<Rightarrow> Closure" where
  "closure_of s =
     \<lparr> c_imageryDescription = imageryDescription s,
       c_interpretationDisplay = interpretationDisplay s,
       c_showInterpretationBox = showInterpretationBox s,
       c_hasUserInteracted = hasUserInteracted s,
       c_isImageryExpanded = isImageryExpanded s \<rparr>"

text \<open>The initial values of the \<^verbatim>\<open>useState\<close> and \<^verbatim>\<open>useRef\<close> calls.\<close>

definition initial_state :: HomeState where
  "initial_state =
     \<lparr> currentStep = ''idle'', error = None, cards = [], displayedCards = [],
       spreadType = three_card, readingId = None, imageryDescription = [],
       interpretationDisplay = [], isImageryExpanded = False,
       isInterpretationExpanded = False, hasUserInteracted = False,
       showImageryBox = False, showInterpretationBox = False, allCardsDisplayed = False,
       interpretationBuffer = [], typingInterval = False, timeouts = [] \<rparr>"

text \<open>The reset at the start of \<^verbatim>\<open>handleSubmit\<close>. \<open>spreadType\<close> and \<open>readingId\<close> are
  not reset. Timeouts already scheduled are not cancelled.\<close>

definition handleSubmit_reset :: "HomeState \<Rightarrow> HomeState" where
  "handleSubmit_reset s =
     s\<lparr> currentStep := ''question_analysis'', error := None, cards := [],
        displayedCards := [], typingInterval := False, interpretationBuffer := [],
        imageryDescription := [], interpretationDisplay := [],
        isImageryExpanded := False, isInterpretationExpanded := False,
        hasUserInteracted := False, showImageryBox := False,
        showInterpretationBox := False, allCardsDisplayed := False \<rparr>"

section \<open>The callbacks of \<^verbatim>\<open>handleSubmit\<close>\<close>

text \<open>\<^verbatim>\<open>data.selected_cards || data.cards || []\<close>: an array is truthy, also when empty.\<close>

definition cardList_of :: "ProgressData \<Rightarrow> RawCard list" where
  "cardList_of d =
     (case d_selected_cards d of Some l \<Rightarrow> l
      | None \<Rightarrow> (case d_cards d of Some l \<Rightarrow> l | None \<Rightarrow> []))"

definition has_cardList :: "ProgressData \<Rightarrow> bool" where
  "has_cardList d = (d_selected_cards d \<noteq> None \<or> d_cards d \<noteq> None)"

text \<open>The body of the \<^verbatim>\<open>cards_selected\<close> branch, after \<^verbatim>\<open>setCurrentStep\<close>.\<close>

definition cards_selected_branch :: "ProgressData \<Rightarrow> HomeState \<Rightarrow> HomeState" where
  "cards_selected_branch d s =
     (let cardData = map toCardData (cardList_of d);
          s1 = s\<lparr>cards := cardData\<rparr>;
          s2 = (if length cardData = 3 then s1\<lparr>spreadType := three_card\<rparr>
                else if length cardData = 10 then s1\<lparr>spreadType := celtic_cross\<rparr>
                else s1)
      in (case cardData of [] \<Rightarrow> s2 | c0 # _ \<Rightarrow> s2\<lparr>displayedCards := [c0]\<rparr>))"

text \<open>The progress callback \<^verbatim>\<open>(step, data) => ...\<close>. The first branch returns before
  \<^verbatim>\<open>setCurrentStep\<close>; the test \<^verbatim>\<open>!imageryDescription\<close> of the
  \<^verbatim>\<open>imagery_generated\<close> branch and \<^verbatim>\<open>!showInterpretationBox\<close> of the
  \<^verbatim>\<open>interpretation_started\<close> branch read the closure.\<close>

definition onProgress :: "Closure \<Rightarrow> string \<Rightarrow> ProgressData \<Rightarrow> HomeState \<Rightarrow> HomeState" where
  "onProgress cl step d s =
     (if step = ''imagery_chunk'' \<and> truthy_str (d_text d) then
        s\<lparr> imageryDescription := imageryDescription s @ str_of (d_text d),
           timeouts := timeouts s @
             (if length (imageryDescription s) = 0 then [(0, ShowImageryBox)] else []) \<rparr>
      else
        (let s1 = s\<lparr>currentStep := step\<rparr> in
         if step = ''cards_selected'' \<and> has_cardList d then cards_selected_branch d s1
         else if step = ''rag_retrieved'' then s1
         else if step = ''imagery_generated'' then
           (if truthy_str (d_imagery_description d) \<and> \<not> truthy_str (Some (c_imageryDescription cl))
            then s1\<lparr>imageryDescription := str_of (d_imagery_description d)\<rparr>
            else s1)
         else if step = ''interpretation_started'' then
           s1\<lparr> currentStep := ''interpretation_started'',
               timeouts := timeouts s1 @
                 (if \<not> c_showInterpretationBox cl then [(0, ShowInterpretationBox)] else []) \<rparr>
         else s1))"

text \<open>\<^verbatim>\<open>startInterpretationTyping\<close>: starts the interval unless one is running.\<close>

definition startInterpretationTyping :: "HomeState \<Rightarrow> HomeState" where
  "startInterpretationTyping s = (if typingInterval s then s else s\<lparr>typingInterval := True\<rparr>)"

text \<open>The interpretation callback \<^verbatim>\<open>(text) => ...\<close>.\<close>

definition onInterpretation :: "Closure \<Rightarrow> string \<Rightarrow> HomeState \<Rightarrow> HomeState" where
  "onInterpretation cl txt s =
     (let s1 = s\<lparr>currentStep := ''interpretation_streaming''\<rparr>;
          s2 = (if length (c_interpretationDisplay cl) = 0
                then s1\<lparr>timeouts := timeouts s1 @ [(0, ShowInterpretationBox)]\<rparr> else s1);
          s3 = s2\<lparr>interpretationBuffer := interpretationBuffer s2 @ txt\<rparr>;
          s4 = startInterpretationTyping s3
      in if \<not> c_hasUserInteracted cl \<and> \<not> c_isImageryExpanded cl
         then s4\<lparr>isInterpretationExpanded := True\<rparr> else s4)"

text \<open>The completion callback \<^verbatim>\<open>(result) => ...\<close>. The \<^verbatim>\<open>readingCreated\<close> window event
  it schedules does not touch component state and is left out.\<close>

definition onComplete :: "CompleteData \<Rightarrow> HomeState \<Rightarrow> HomeState" where
  "onComplete result s =
     (let s1 = s\<lparr>currentStep := ''complete''\<rparr>;
          rid = or_str (r_reading_id result) (r_id result)
      in if truthy_str rid then s1\<lparr>readingId := rid\<rparr> else s1)"

text \<open>The error callback \<^verbatim>\<open>(errorMsg) => ...\<close>. The \<^verbatim>\<open>readingFailed\<close> window event is
  left out.\<close>

definition onError :: "string \<Rightarrow> HomeState \<Rightarrow> HomeState" where
  "onError errorMsg s =
     s\<lparr> typingInterval := False, interpretationBuffer := [],
        interpretationDisplay := [], error := Some errorMsg, currentStep := ''idle'' \<rparr>"

text \<open>One step of the client on a typed event.\<close>

fun on_event :: "Closure \<Rightarrow> event \<Rightarrow> HomeState \<Rightarrow> HomeState" where
  "on_event cl (OnProgress step d) s = onProgress cl step d s"
| "on_event cl (OnInterpretation txt) s = onInterpretation cl txt s"
| "on_event cl (OnComplete result) s = onComplete result s"
| "on_event cl (OnError errorMsg) s = onError errorMsg s"

section \<open>Timers\<close>

text \<open>The callback of \<^verbatim>\<open>setInterval\<close> in \<^verbatim>\<open>startInterpretationTyping\<close>; it can run only
  while the interval exists. \<^verbatim>\<open>slice(0, 5)\<close> is \<open>take 5\<close>, \<^verbatim>\<open>slice(n)\<close> is \<open>drop n\<close>.\<close>

definition typing_tick :: "HomeState \<Rightarrow> HomeState" where
  "typing_tick s =
     (if \<not> typingInterval s then s
      else if length (interpretationBuffer s) = 0 then s\<lparr>typingInterval := False\<rparr>
      else
        (let nextChunk = take 5 (interpretationBuffer s) in
         s\<lparr> interpretationBuffer := drop (length nextChunk) (interpretationBuffer s),
            interpretationDisplay := interpretationDisplay s @ nextChunk \<rparr>))"

text \<open>Running a pending \<^verbatim>\<open>setTimeout\<close> callback.\<close>

fun run_task :: "task \<Rightarrow> HomeState \<Rightarrow> HomeState" where
  "run_task ShowImageryBox s = s\<lparr>showImageryBox := True\<rparr>"
| "run_task ShowInterpretationBox s = s\<lparr>showInterpretationBox := True\<rparr>"

text \<open>The \<open>i\<close>-th pending timeout fires: it leaves the list and its callback runs.\<close>

definition fire_timeout :: "nat \<Rightarrow> HomeState \<Rightarrow> HomeState" where
  "fire_timeout i s =
     (if i < length (timeouts s)
      then run_task (snd (timeouts s ! i))
             (s\<lparr>timeouts := take i (timeouts s) @ drop (Suc i) (timeouts s)\<rparr>)
      else s)"

text \<open>The effect on \<^verbatim>\<open>currentStep\<close> that shows the interpretation box one second after
  \<^verbatim>\<open>imagery_generated\<close> writes \<^verbatim>\<open>showInterpretationBox\<close> only; it is left out, as are the
  handlers of clicks and scrolling.\<close>

subsection \<open>The card display effect\<close>

text \<open>\<^verbatim>\<open>[...cards].sort((a, b) => a.position_order - b.position_order)\<close>: the sort of an
  array is stable, as \<open>sort_key\<close> is.\<close>

definition sortedCards :: "HomeState \<Rightarrow> CardData list" where
  "sortedCards s = sort_key position_order (cards s)"

text \<open>Times are in milliseconds; the quotient \<^verbatim>\<open>totalDisplayTime / sortedCards.length\<close> is
  taken exactly.\<close>

definition totalDisplayTime :: "HomeState \<Rightarrow> rat" where
  "totalDisplayTime s = (if spreadType s = three_card then 5000 else 10000)"

definition intervalPerCard :: "HomeState \<Rightarrow> rat" where
  "intervalPerCard s = totalDisplayTime s / of_nat (length (sortedCards s))"

text \<open>The body of the effect with dependencies
  \<^verbatim>\<open>[cards, displayedCards.length, spreadType, allCardsDisplayed]\<close>: the state after its
  synchronous part, and the delay of the timeout it sets, if it sets one.\<close>

definition card_display_effect :: "HomeState \<Rightarrow> HomeState \<times> rat option" where
  "card_display_effect s =
     (if length (cards s) = 0 then (s\<lparr>displayedCards := []\<rparr>, None)
      else if length (displayedCards s) \<ge> length (sortedCards s) then (s, None)
      else (s, Some (intervalPerCard s)))"

text \<open>The callback of that timeout. Every value it captured is a dependency of the effect,
  so when it runs the captured values are the current ones.\<close>

definition card_display_timer :: "HomeState \<Rightarrow> HomeState" where
  "card_display_timer s =
     (let nextIndex = length (displayedCards s) in
      if nextIndex < length (sortedCards s) then
        (let newDisplayedCards = take (nextIndex + 1) (sortedCards s);
             s1 = s\<lparr>displayedCards := newDisplayedCards\<rparr>
         in if length newDisplayedCards = length (sortedCards s) \<and> \<not> allCardsDisplayed s
            then s1\<lparr> allCardsDisplayed := True,
                     timeouts := timeouts s1 @ [(1000, ShowImageryBox)] \<rparr>
            else s1)
      else s)"


subsection \<open>Runs of the client\<close>

text \<open>What can happen to the component while a stream is processed: a callback is invoked
  with an event, the typing interval ticks, the card display timeout fires, or a pending
  \<^verbatim>\<open>setTimeout\<close> callback runs. After each, the render runs the synchronous part of the
  card display effect.\<close>

datatype action = Event event | TypingTick | CardTimer | Timeout nat

fun apply_action :: "Closure \<Rightarrow> action \<Rightarrow> HomeState \<Rightarrow> HomeState" where
  "apply_action cl (Event e) s = on_event cl e s"
| "apply_action cl TypingTick s = typing_tick s"
| "apply_action cl CardTimer s =
     (case snd (card_display_effect s) of None \<Rightarrow> s | Some _ \<Rightarrow> card_display_timer s)"
| "apply_action cl (Timeout i) s = fire_timeout i s"

definition step :: "Closure \<Rightarrow> HomeState \<Rightarrow> action \<Rightarrow> HomeState" where
  "step cl s a = fst (card_display_effect (apply_action cl a s))"

definition run :: "Closure \<Rightarrow> HomeState \<Rightarrow> action list \<Rightarrow> HomeState" where
  "run cl s acts = foldl (step cl) s acts"

text \<open>The events of a run, in order.\<close>

fun events_of :: "action list \<Rightarrow> event list" where
  "events_of [] = []"
| "events_of (Event e # acts) = e # events_of acts"
| "events_of (_ # acts) = events_of acts"

text \<open>A fresh page on which the form is submitted: the callbacks close over the initial
  render, and the stream starts from the reset state.\<close>

definition fresh_closure :: Closure where
  "fresh_closure = closure_of initial_state"

definition fresh_state :: HomeState where
  "fresh_state = fst (card_display_effect (handleSubmit_reset initial_state))"

text \<open>The client reading state the specification speaks of: current step, cards, imagery
  text, interpretation text (what is displayed followed by what still waits in the typing
  buffer) and reading id.\<close>

record ClientReadingState =
  crs_step :: string
  crs_cards :: "CardData list"
  crs_imagery :: string
  crs_interpretation :: string
  crs_reading_id :: "string option"

definition client_state :: "HomeState \<Rightarrow> ClientReadingState" where
  "client_state s =
     \<lparr> crs_step = currentStep s, crs_cards = cards s, crs_imagery = imageryDescription s,
       crs_interpretation = interpretationDisplay s @ interpretationBuffer s,
       crs_reading_id = readingId s \<rparr>"


text \<open>Feeding a list of events to the callbacks alone, with no timer in between.\<close>

definition replay :: "Closure \<Rightarrow> HomeState \<Rightarrow> event list \<Rightarrow> HomeState" where
  "replay cl s evs = foldl (\<lambda>s' e. on_event cl e s') s evs"


subsection \<open>The timeline of the card display\<close>


section \<open>The stream parser of \<^verbatim>\<open>createReadingStream\<close>\<close>

subsection \<open>Parsed payloads\<close>

text \<open>The value \<^verbatim>\<open>JSON.parse\<close> returns. \<^verbatim>\<open>JSON.parse\<close> itself belongs to the runtime
  and is a parameter \<open>parse\<close> below: \<open>None\<close> stands for the \<^verbatim>\<open>SyntaxError\<close> it throws.\<close>

datatype json =
    JNull
  | JBool bool
  | JNum rat
  | JStr string
  | JArr "json list"
  | JObj "(string \<times> json) list"

text \<open>Reading \<^verbatim>\<open>data.k\<close> for one of the names \<^verbatim>\<open>step\<close>, \<^verbatim>\<open>text\<close>, \<^verbatim>\<open>error\<close>: on
  \<^verbatim>\<open>null\<close> it throws a \<^verbatim>\<open>TypeError\<close> (the outer \<open>None\<close>); on an object it is the member
  or \<^verbatim>\<open>undefined\<close> (the inner \<open>None\<close>); numbers, booleans, strings and arrays have no
  property of these names.\<close>

fun get_prop :: "json \<Rightarrow> string \<Rightarrow> json option option" where
  "get_prop JNull k = None"
| "get_prop (JObj kvs) k = Some (map_of kvs k)"
| "get_prop _ k = Some None"

fun truthy :: "json \<Rightarrow> bool" where
  "truthy JNull = False"
| "truthy (JBool b) = b"
| "truthy (JNum n) = (n \<noteq> 0)"
| "truthy (JStr s) = (s \<noteq> [])"
| "truthy (JArr _) = True"
| "truthy (JObj _) = True"

text \<open>\<^verbatim>\<open>v || dflt\<close> for a \<open>v\<close> that may be \<^verbatim>\<open>undefined\<close>.\<close>

definition js_or :: "json option \<Rightarrow> json \<Rightarrow> json" where
  "js_or v dflt = (case v of None \<Rightarrow> dflt | Some j \<Rightarrow> (if truthy j then j else dflt))"

text \<open>A callback invocation with its arguments.\<close>

datatype call =
    CallProgress json json
  | CallInterpretation json
  | CallError json
  | CallComplete json

text \<open>The \<^verbatim>\<open>if\<close> chain on \<^verbatim>\<open>currentEvent\<close> inside the \<^verbatim>\<open>try\<close> block. An exception
  raised while the argument is computed is caught before any callback is invoked. An
  exception raised by a callback is caught by the same block: the invocation has happened
  and the loop goes on.\<close>

definition dispatch :: "string \<Rightarrow> json \<Rightarrow> call list" where
  "dispatch currentEvent data =
     (if currentEvent = ''progress'' then
        (case get_prop data ''step'' of None \<Rightarrow> []
         | Some v \<Rightarrow> [CallProgress (js_or v (JStr ''unknown'')) data])
      else if currentEvent = ''imagery_chunk'' then
        [CallProgress (JStr ''imagery_chunk'') data]
      else if currentEvent = ''interpretation'' then
        (case get_prop data ''text'' of None \<Rightarrow> []
         | Some v \<Rightarrow> [CallInterpretation (js_or v (JStr []))])
      else if currentEvent = ''error'' then
        (case get_prop data ''error'' of None \<Rightarrow> []
         | Some v \<Rightarrow> [CallError (js_or v (JStr ''Unknown error''))])
      else if currentEvent = ''complete'' then [CallComplete data]
      else [])"

subsection \<open>Lines\<close>

definition newline :: char where
  "newline = CHR 0x0A"

text \<open>\<^verbatim>\<open>s.split('\n')\<close>: never empty; the last element is what follows the last line
  feed.\<close>

fun split_nl :: "string \<Rightarrow> string list" where
  "split_nl [] = [[]]"
| "split_nl (c # cs) =
     (if c = newline then [] # split_nl cs
      else (c # hd (split_nl cs)) # tl (split_nl cs))"

text \<open>The characters of this model are the code units below 256. Of these,
  \<^verbatim>\<open>trim\<close> removes tab, line feed, vertical tab, form feed, carriage return, space and
  the no-break space U+00A0.\<close>

definition is_ws :: "char \<Rightarrow> bool" where
  "is_ws c = (c = CHR 0x09 \<or> c = CHR 0x0A \<or> c = CHR 0x0B \<or> c = CHR 0x0C
              \<or> c = CHR 0x0D \<or> c = CHR 0x20 \<or> c = CHR 0xA0)"

definition trim :: "string \<Rightarrow> string" where
  "trim s = rev (dropWhile is_ws (rev (dropWhile is_ws s)))"

definition startsWith :: "string \<Rightarrow> string \<Rightarrow> bool" where
  "startsWith s p = (take (length p) s = p)"

text \<open>The body of the \<^verbatim>\<open>for\<close> loop for one line: the new \<^verbatim>\<open>currentEvent\<close> and the
  callbacks invoked. \<^verbatim>\<open>continue\<close> on an empty payload skips the rest of the body.\<close>

definition process_line :: "(string \<Rightarrow> json option) \<Rightarrow> string \<Rightarrow> string \<Rightarrow> string \<times> call list" where
  "process_line parse currentEvent line =
     (if startsWith line ''event: '' then (trim (drop 7 line), [])
      else if startsWith line ''data: '' then
        (let dataStr = trim (drop 6 line) in
         if dataStr = [] then (currentEvent, [])
         else (case parse dataStr of
                 None \<Rightarrow> ([], [])
               | Some data \<Rightarrow> ([], dispatch currentEvent data)))
      else (currentEvent, []))"

fun process_lines :: "(string \<Rightarrow> json option) \<Rightarrow> string \<Rightarrow> string list \<Rightarrow> string \<times> call list" where
  "process_lines parse currentEvent [] = (currentEvent, [])"
| "process_lines parse currentEvent (line # lines) =
     (let (ev1, calls1) = process_line parse currentEvent line;
          (ev2, calls2) = process_lines parse ev1 lines
      in (ev2, calls1 @ calls2))"

subsection \<open>The read loop\<close>

text \<open>The two variables that live across reads. The chunks are the texts the decoder
  returns for the successive reads.\<close>

record ParserState =
  buffer :: string
  currentEvent :: string

text \<open>One iteration of \<^verbatim>\<open>while (true)\<close> with \<^verbatim>\<open>done\<close> false:
  \<^verbatim>\<open>buffer += chunk; lines = buffer.split('\n'); buffer = lines.pop() || ''\<close>, then the
  \<^verbatim>\<open>for\<close> loop.\<close>

definition read_chunk :: "(string \<Rightarrow> json option) \<Rightarrow> ParserState \<Rightarrow> string \<Rightarrow> ParserState \<times> call list" where
  "read_chunk parse ps chunk =
     (let lines0 = split_nl (buffer ps @ chunk);
          (ev, calls) = process_lines parse (currentEvent ps) (butlast lines0)
      in (\<lparr>buffer = last lines0, currentEvent = ev\<rparr>, calls))"

fun read_loop :: "(string \<Rightarrow> json option) \<Rightarrow> ParserState \<Rightarrow> string list \<Rightarrow> ParserState \<times> call list" where
  "read_loop parse ps [] = (ps, [])"
| "read_loop parse ps (chunk # chunks) =
     (let (ps1, calls1) = read_chunk parse ps chunk;
          (ps2, calls2) = read_loop parse ps1 chunks
      in (ps2, calls1 @ calls2))"

text \<open>All callback invocations of \<^verbatim>\<open>createReadingStream\<close> on a response delivered in the
  given chunks, in order.\<close>

definition createReadingStream :: "(string \<Rightarrow> json option) \<Rightarrow> string list \<Rightarrow> call list" where
  "createReadingStream parse chunks =
     snd (read_loop parse \<lparr>buffer = [], currentEvent = []\<rparr> chunks)"


subsection \<open>Sample payloads\<close>

text \<open>A card as the server sends it, with a name and a position order, and a
  \<^verbatim>\<open>cards_selected\<close> payload that carries a list of them; used in the examples.\<close>

definition sample_card :: "string \<Rightarrow> int \<Rightarrow> RawCard" where
  "sample_card name ord =
     \<lparr> raw_card_id = Some name, raw_id = None, raw_card_name_en = Some name,
       raw_name = None, raw_card_name_cn = None, raw_position = None,
       raw_position_order = Some ord, raw_is_reversed = Some False,
       raw_image_url = None \<rparr>"

definition sample_selection :: "RawCard list \<Rightarrow> ProgressData" where
  "sample_selection cs =
     \<lparr> d_text = None, d_selected_cards = Some cs, d_cards = None,
       d_imagery_description = None \<rparr>"

section \<open>What each callback does to each state variable\<close>

lemma cards_selected_branch_fields:
  "currentStep (cards_selected_branch d s) = currentStep s"
  "cards (cards_selected_branch d s) = map toCardData (cardList_of d)"
  "imageryDescription (cards_selected_branch d s) = imageryDescription s"
  "interpretationDisplay (cards_selected_branch d s) = interpretationDisplay s"
  "interpretationBuffer (cards_selected_branch d s) = interpretationBuffer s"
  "readingId (cards_selected_branch d s) = readingId s"
  "timeouts (cards_selected_branch d s) = timeouts s"
  by (simp_all add: cards_selected_branch_def Let_def split: list.splits)

lemma onProgress_currentStep:
  "currentStep (onProgress cl st d s) =
     (if st = ''imagery_chunk'' \<and> truthy_str (d_text d) then currentStep s else st)"
  by (simp add: onProgress_def Let_def cards_selected_branch_fields)

lemma onProgress_cards:
  "cards (onProgress cl st d s) =
     (if st = ''cards_selected'' \<and> has_cardList d then map toCardData (cardList_of d)
      else cards s)"
  by (simp add: onProgress_def Let_def cards_selected_branch_fields)

lemma onProgress_imageryDescription:
  "imageryDescription (onProgress cl st d s) =
     (if st = ''imagery_chunk'' \<and> truthy_str (d_text d)
      then imageryDescription s @ str_of (d_text d)
      else if st = ''imagery_generated'' \<and> truthy_str (d_imagery_description d)
              \<and> c_imageryDescription cl = []
      then str_of (d_imagery_description d)
      else imageryDescription s)"
  by (simp add: onProgress_def Let_def cards_selected_branch_fields truthy_str_def)

lemma onProgress_interpretation:
  "interpretationDisplay (onProgress cl st d s) = interpretationDisplay s"
  "interpretationBuffer (onProgress cl st d s) = interpretationBuffer s"
  "readingId (onProgress cl st d s) = readingId s"
  by (simp_all add: onProgress_def Let_def cards_selected_branch_fields)

lemma onInterpretation_fields:
  "currentStep (onInterpretation cl txt s) = ''interpretation_streaming''"
  "cards (onInterpretation cl txt s) = cards s"
  "imageryDescription (onInterpretation cl txt s) = imageryDescription s"
  "interpretationDisplay (onInterpretation cl txt s) = interpretationDisplay s"
  "interpretationBuffer (onInterpretation cl txt s) = interpretationBuffer s @ txt"
  "readingId (onInterpretation cl txt s) = readingId s"
  by (simp_all add: onInterpretation_def startInterpretationTyping_def Let_def)

lemma onComplete_fields:
  "currentStep (onComplete r s) = ''complete''"
  "cards (onComplete r s) = cards s"
  "imageryDescription (onComplete r s) = imageryDescription s"
  "interpretationDisplay (onComplete r s) = interpretationDisplay s"
  "interpretationBuffer (onComplete r s) = interpretationBuffer s"
  "readingId (onComplete r s) =
     (if truthy_str (or_str (r_reading_id r) (r_id r))
      then or_str (r_reading_id r) (r_id r) else readingId s)"
  by (simp_all add: onComplete_def Let_def)

lemma onError_fields:
  "currentStep (onError m s) = ''idle''"
  "error (onError m s) = Some m"
  "cards (onError m s) = cards s"
  "displayedCards (onError m s) = displayedCards s"
  "imageryDescription (onError m s) = imageryDescription s"
  "interpretationDisplay (onError m s) = []"
  "interpretationBuffer (onError m s) = []"
  "typingInterval (onError m s) = False"
  "readingId (onError m s) = readingId s"
  "showImageryBox (onError m s) = showImageryBox s"
  by (simp_all add: onError_def)


section \<open>Replay determinism of the client state\<close>

text \<open>Timers do not touch the client reading state: the typing interval only moves text
  from the buffer to the display.\<close>

lemma take_drop_slice: "take n xs @ drop (min (length xs) n) xs = xs"
  by (cases "length xs \<le> n") (simp_all add: min_def)

lemma client_state_effect: "client_state (fst (card_display_effect s)) = client_state s"
  by (simp add: card_display_effect_def client_state_def)

lemma client_state_typing_tick: "client_state (typing_tick s) = client_state s"
  by (simp add: typing_tick_def client_state_def Let_def take_drop_slice)

lemma client_state_card_display_timer: "client_state (card_display_timer s) = client_state s"
  by (simp add: card_display_timer_def client_state_def Let_def)

lemma client_state_fire_timeout: "client_state (fire_timeout i s) = client_state s"
  by (cases "snd (timeouts s ! i)") (simp_all add: fire_timeout_def client_state_def)

text \<open>The client reading state after a callback depends on the state before only through
  its client reading state.\<close>

lemma client_state_eq_iff:
  "client_state s = client_state s' \<longleftrightarrow>
     currentStep s = currentStep s' \<and> cards s = cards s' \<and>
     imageryDescription s = imageryDescription s' \<and>
     interpretationDisplay s @ interpretationBuffer s
       = interpretationDisplay s' @ interpretationBuffer s' \<and>
     readingId s = readingId s'"
  by (simp add: client_state_def)

lemma client_state_on_event:
  assumes "client_state s = client_state s'"
  shows "client_state (on_event cl e s) = client_state (on_event cl e s')"
proof (cases e)
  case (OnProgress st d)
  with assms show ?thesis
    by (simp add: client_state_eq_iff onProgress_currentStep onProgress_cards
        onProgress_imageryDescription onProgress_interpretation)
next
  case (OnInterpretation frag)
  from assms have "(interpretationDisplay s @ interpretationBuffer s) @ frag
      = (interpretationDisplay s' @ interpretationBuffer s') @ frag"
    by (simp only: client_state_eq_iff)
  with assms OnInterpretation show ?thesis
    by (simp add: client_state_eq_iff onInterpretation_fields)
next
  case (OnComplete r)
  with assms show ?thesis by (simp add: client_state_eq_iff onComplete_fields)
next
  case (OnError m)
  with assms show ?thesis by (simp add: client_state_eq_iff onError_fields)
qed


lemma client_state_step_event:
  "client_state s = client_state s' \<Longrightarrow>
   client_state (step cl s (Event e)) = client_state (on_event cl e s')"
proof -
  assume "client_state s = client_state s'"
  then have "client_state (on_event cl e s) = client_state (on_event cl e s')"
    by (rule client_state_on_event)
  then show ?thesis
    by (simp only: step_def apply_action.simps client_state_effect)
qed

lemma client_state_step_TypingTick: "client_state (step cl s TypingTick) = client_state s"
  by (simp add: step_def client_state_effect client_state_typing_tick)

lemma client_state_step_CardTimer: "client_state (step cl s CardTimer) = client_state s"
  by (cases "snd (card_display_effect s)")
    (simp_all add: step_def client_state_effect client_state_card_display_timer)

lemma client_state_step_Timeout: "client_state (step cl s (Timeout i)) = client_state s"
  by (simp add: step_def client_state_effect client_state_fire_timeout)

lemma run_Cons: "run cl s (a # acts) = run cl (step cl s a) acts"
  by (simp only: run_def foldl_Cons)

lemma replay_Cons: "replay cl s (e # evs) = replay cl (on_event cl e s) evs"
  by (simp only: replay_def foldl_Cons)

lemma client_state_run:
  "client_state s = client_state s' \<Longrightarrow>
   client_state (run cl s acts) = client_state (replay cl s' (events_of acts))"
proof (induction acts arbitrary: s s')
  case Nil
  then show ?case by (simp only: run_def replay_def events_of.simps foldl_Nil)
next
  case (Cons a acts)
  show ?case
  proof (cases a)
    case (Event e)
    have "client_state (step cl s (Event e)) = client_state (on_event cl e s')"
      using Cons.prems by (rule client_state_step_event)
    then have "client_state (run cl (step cl s (Event e)) acts)
        = client_state (replay cl (on_event cl e s') (events_of acts))"
      by (rule Cons.IH)
    then show ?thesis by (simp only: Event run_Cons replay_Cons events_of.simps)
  next
    case TypingTick
    have "client_state (step cl s TypingTick) = client_state s'"
      using Cons.prems by (simp only: client_state_step_TypingTick)
    then have "client_state (run cl (step cl s TypingTick) acts)
        = client_state (replay cl s' (events_of acts))"
      by (rule Cons.IH)
    then show ?thesis by (simp only: TypingTick run_Cons events_of.simps)
  next
    case CardTimer
    have "client_state (step cl s CardTimer) = client_state s'"
      using Cons.prems by (simp only: client_state_step_CardTimer)
    then have "client_state (run cl (step cl s CardTimer) acts)
        = client_state (replay cl s' (events_of acts))"
      by (rule Cons.IH)
    then show ?thesis by (simp only: CardTimer run_Cons events_of.simps)
  next
    case (Timeout i)
    have "client_state (step cl s (Timeout i)) = client_state s'"
      using Cons.prems by (simp only: client_state_step_Timeout)
    then have "client_state (run cl (step cl s (Timeout i)) acts)
        = client_state (replay cl s' (events_of acts))"
      by (rule Cons.IH)
    then show ?thesis by (simp only: Timeout run_Cons events_of.simps)
  qed
qed

text \<open>C1. Replay determinism: whatever the closure and the starting state, two runs of
  the client that receive the same list of events end in the same client reading state
  (current step, cards, imagery text, interpretation text, reading id), however the
  ticks of the typing interval, the card display timeouts and the other pending timeouts
  fall between the events; and that state is the left fold of the callbacks over the
  events.\<close>

theorem replay_determinism:
  "events_of acts1 = events_of acts2 \<Longrightarrow>
   client_state (run cl s acts1) = client_state (run cl s acts2) \<and>
   client_state (run cl s acts1) = client_state (replay cl s (events_of acts1))"
proof -
  assume same: "events_of acts1 = events_of acts2"
  have r1: "client_state (run cl s acts1) = client_state (replay cl s (events_of acts1))"
    by (rule client_state_run [OF refl])
  have r2: "client_state (run cl s acts2) = client_state (replay cl s (events_of acts2))"
    by (rule client_state_run [OF refl])
  from r1 r2 same show ?thesis by (simp only: simp_thms)
qed

theorem replay_determinism_witness:
  "events_of [Event (OnInterpretation ''The Fool''), TypingTick,
              Event (OnComplete \<lparr>r_reading_id = Some ''r1'', r_id = None\<rparr>)]
   = events_of [Event (OnInterpretation ''The Fool''),
                Event (OnComplete \<lparr>r_reading_id = Some ''r1'', r_id = None\<rparr>),
                TypingTick, Timeout 0, TypingTick]
   \<and> client_state (run fresh_closure fresh_state
        [Event (OnInterpretation ''The Fool''), TypingTick,
         Event (OnComplete \<lparr>r_reading_id = Some ''r1'', r_id = None\<rparr>)])
     = client_state (run fresh_closure fresh_state
        [Event (OnInterpretation ''The Fool''),
         Event (OnComplete \<lparr>r_reading_id = Some ''r1'', r_id = None\<rparr>),
         TypingTick, Timeout 0, TypingTick])"
proof -
  have same: "events_of [Event (OnInterpretation ''The Fool''), TypingTick,
              Event (OnComplete \<lparr>r_reading_id = Some ''r1'', r_id = None\<rparr>)]
   = events_of [Event (OnInterpretation ''The Fool''),
                Event (OnComplete \<lparr>r_reading_id = Some ''r1'', r_id = None\<rparr>),
                TypingTick, Timeout 0, TypingTick]"
    by (simp only: events_of.simps)
  from same replay_determinism [OF same, of fresh_closure fresh_state]
  show ?thesis by (simp only: simp_thms)
qed


section \<open>The imagery text\<close>

lemma imagery_effect: "imageryDescription (fst (card_display_effect s)) = imageryDescription s"
  by (simp add: card_display_effect_def)





section \<open>Progress steps\<close>

text \<open>C3. The progress callback has no filter for informational steps: a progress event
  whose step is \<^verbatim>\<open>started\<close>, \<^verbatim>\<open>rag_card_progress\<close> or \<^verbatim>\<open>rag_first_card_ready\<close> makes that
  name the current step, from any state; after the reset of \<^verbatim>\<open>handleSubmit\<close> the current
  step was \<^verbatim>\<open>question_analysis\<close>.\<close>

theorem informational_progress_sets_step:
  "currentStep (on_event cl (OnProgress ''started'' d) s) = ''started''
   \<and> currentStep (on_event cl (OnProgress ''rag_card_progress'' d) s) = ''rag_card_progress''
   \<and> currentStep (on_event cl (OnProgress ''rag_first_card_ready'' d) s)
       = ''rag_first_card_ready''
   \<and> currentStep (handleSubmit_reset s) = ''question_analysis''
   \<and> currentStep (on_event cl (OnProgress ''started'' d) (handleSubmit_reset s))
       \<noteq> currentStep (handleSubmit_reset s)"
  by (simp add: onProgress_currentStep handleSubmit_reset_def)

section \<open>The error event\<close>

lemma typing_tick_stopped: "\<not> typingInterval s \<Longrightarrow> typing_tick s = s"
  by (simp add: typing_tick_def)

lemma typing_ticks_stopped: "\<not> typingInterval s \<Longrightarrow> (typing_tick ^^ n) s = s"
  by (induction n) (simp_all add: typing_tick_stopped)

lemma effect_fields:
  "currentStep (fst (card_display_effect s)) = currentStep s"
  "error (fst (card_display_effect s)) = error s"
  "cards (fst (card_display_effect s)) = cards s"
  "spreadType (fst (card_display_effect s)) = spreadType s"
  "interpretationDisplay (fst (card_display_effect s)) = interpretationDisplay s"
  "interpretationBuffer (fst (card_display_effect s)) = interpretationBuffer s"
  "typingInterval (fst (card_display_effect s)) = typingInterval s"
  "showImageryBox (fst (card_display_effect s)) = showImageryBox s"
  "allCardsDisplayed (fst (card_display_effect s)) = allCardsDisplayed s"
  "timeouts (fst (card_display_effect s)) = timeouts s"
  by (simp_all add: card_display_effect_def)

lemma run_snoc: "run cl s (acts @ [a]) = step cl (run cl s acts) a"
  by (simp add: run_def)

text \<open>C6, as the code has it. An error event sets the current step to \<^verbatim>\<open>idle\<close>, stores
  the message, stops the typing interval and empties the interpretation buffer and the
  displayed interpretation text, which no later tick of the interval brings back. The
  imagery text and the two card lists are left as they were.\<close>

theorem error_discards_interpretation_only:
  "currentStep (on_event cl (OnError m) s) = ''idle''
   \<and> error (on_event cl (OnError m) s) = Some m
   \<and> interpretationBuffer (on_event cl (OnError m) s) = []
   \<and> interpretationDisplay (on_event cl (OnError m) s) = []
   \<and> \<not> typingInterval (on_event cl (OnError m) s)
   \<and> interpretationDisplay ((typing_tick ^^ n) (on_event cl (OnError m) s)) = []
   \<and> imageryDescription (on_event cl (OnError m) s) = imageryDescription s
   \<and> cards (on_event cl (OnError m) s) = cards s
   \<and> displayedCards (on_event cl (OnError m) s) = displayedCards s"
  by (simp add: onError_fields typing_ticks_stopped)

text \<open>Against C6 as stated: after an imagery fragment and an error event the imagery
  text is still there, and after a card selection and an error event the card list is
  still there.\<close>

theorem error_keeps_imagery_and_cards:
  "imageryDescription (replay fresh_closure fresh_state
     [OnProgress ''imagery_chunk''
        \<lparr>d_text = Some ''abc'', d_selected_cards = None, d_cards = None,
         d_imagery_description = None\<rparr>,
      OnError ''boom'']) = ''abc''
   \<and> cards (replay fresh_closure fresh_state
     [OnProgress ''cards_selected''
        \<lparr>d_text = None,
         d_selected_cards = Some [\<lparr>raw_card_id = Some ''c1'', raw_id = None,
            raw_card_name_en = Some ''The Fool'', raw_name = None, raw_card_name_cn = None,
            raw_position = Some ''past'', raw_position_order = Some 1,
            raw_is_reversed = Some False, raw_image_url = None\<rparr>],
         d_cards = None, d_imagery_description = None\<rparr>,
      OnError ''boom'']) \<noteq> []"
  by (simp add: replay_def onError_fields onProgress_imageryDescription onProgress_cards
      has_cardList_def cardList_of_def truthy_str_def str_of_def fresh_state_def
      effect_fields imagery_effect handleSubmit_reset_def)


lemma fresh_state_fields:
  "currentStep fresh_state = ''question_analysis''"
  "cards fresh_state = []"
  "displayedCards fresh_state = []"
  "spreadType fresh_state = three_card"
  "imageryDescription fresh_state = []"
  "interpretationDisplay fresh_state = []"
  "interpretationBuffer fresh_state = []"
  "typingInterval fresh_state = False"
  "allCardsDisplayed fresh_state = False"
  "timeouts fresh_state = []"
  by (simp_all add: fresh_state_def card_display_effect_def handleSubmit_reset_def
      initial_state_def)

lemma onInterpretation_typingInterval: "typingInterval (onInterpretation cl frag s)"
  by (simp add: onInterpretation_def startInterpretationTyping_def Let_def)

lemma typing_tick_interpretationDisplay:
  "interpretationDisplay (typing_tick s) =
     (if typingInterval s then interpretationDisplay s @ take 5 (interpretationBuffer s)
      else interpretationDisplay s)"
  by (simp add: typing_tick_def Let_def)

text \<open>C7, as the code has it. An error event, whenever it arrives in a run, leaves the
  imagery text and the visibility of the imagery box as they were, and erases the
  interpretation text, displayed and pending.\<close>

theorem error_keeps_imagery_erases_interpretation:
  "imageryDescription (run cl s (acts @ [Event (OnError m)]))
     = imageryDescription (run cl s acts)
   \<and> showImageryBox (run cl s (acts @ [Event (OnError m)]))
     = showImageryBox (run cl s acts)
   \<and> interpretationDisplay (run cl s (acts @ [Event (OnError m)])) = []
   \<and> interpretationBuffer (run cl s (acts @ [Event (OnError m)])) = []"
  by (simp add: run_snoc step_def effect_fields imagery_effect onError_fields)

text \<open>Against C7 as stated: interpretation text that was on display is gone after an
  error event.\<close>

theorem error_erases_displayed_interpretation:
  "interpretationDisplay (run fresh_closure fresh_state
     [Event (OnInterpretation ''Hello''), TypingTick]) = ''Hello''
   \<and> interpretationDisplay (run fresh_closure fresh_state
     [Event (OnInterpretation ''Hello''), TypingTick, Event (OnError ''boom'')]) = []"
  by (simp add: run_def step_def effect_fields onError_fields onInterpretation_fields
      onInterpretation_typingInterval typing_tick_interpretationDisplay fresh_state_fields)

section \<open>Card selection\<close>

lemma cards_selected_branch_spreadType:
  "spreadType (cards_selected_branch d s) =
     (if length (cardList_of d) = 3 then three_card
      else if length (cardList_of d) = 10 then celtic_cross
      else spreadType s)"
  by (simp add: cards_selected_branch_def Let_def split: list.splits)

lemma onProgress_cards_selected_spreadType:
  "has_cardList d \<Longrightarrow>
   spreadType (onProgress cl ''cards_selected'' d s) =
     (if length (cardList_of d) = 3 then three_card
      else if length (cardList_of d) = 10 then celtic_cross
      else spreadType s)"
  by (simp add: onProgress_def Let_def cards_selected_branch_spreadType)

text \<open>C10. On a \<^verbatim>\<open>cards_selected\<close> event that carries a card list, the spread type
  becomes \<^verbatim>\<open>three_card\<close> when the list has exactly 3 cards, \<^verbatim>\<open>celtic_cross\<close> when it has
  exactly 10, and stays what it was for any other length; it is \<^verbatim>\<open>three_card\<close> initially.
  The cards stored are the received ones with defaults filled in: a missing
  \<^verbatim>\<open>position_order\<close> becomes 0 and a missing \<^verbatim>\<open>is_reversed\<close> becomes false.\<close>

theorem spread_type_inference:
  assumes "has_cardList d"
  shows "spreadType (on_event cl (OnProgress ''cards_selected'' d) s) =
           (if length (cardList_of d) = 3 then three_card
            else if length (cardList_of d) = 10 then celtic_cross
            else spreadType s)
       \<and> (spreadType (on_event cl (OnProgress ''cards_selected'' d) s) = three_card
            \<longleftrightarrow> length (cardList_of d) = 3
                \<or> length (cardList_of d) \<noteq> 10 \<and> spreadType s = three_card)
       \<and> (spreadType (on_event cl (OnProgress ''cards_selected'' d) s) = celtic_cross
            \<longleftrightarrow> length (cardList_of d) = 10
                \<or> length (cardList_of d) \<noteq> 3 \<and> spreadType s = celtic_cross)
       \<and> cards (on_event cl (OnProgress ''cards_selected'' d) s)
            = map toCardData (cardList_of d)
       \<and> spreadType initial_state = three_card
       \<and> spreadType fresh_state = three_card
       \<and> (raw_position_order rc = None \<longrightarrow> position_order (toCardData rc) = 0)
       \<and> (raw_is_reversed rc = None \<longrightarrow> is_reversed (toCardData rc) = False)"
proof -
  have sp: "spreadType (on_event cl (OnProgress ''cards_selected'' d) s) =
           (if length (cardList_of d) = 3 then three_card
            else if length (cardList_of d) = 10 then celtic_cross
            else spreadType s)"
    using assms by (simp add: onProgress_cards_selected_spreadType)
  have cs: "cards (on_event cl (OnProgress ''cards_selected'' d) s)
            = map toCardData (cardList_of d)"
    using assms by (simp add: onProgress_cards)
  have ini: "spreadType initial_state = three_card" by (simp add: initial_state_def)
  have dflt: "(raw_position_order rc = None \<longrightarrow> position_order (toCardData rc) = 0)
       \<and> (raw_is_reversed rc = None \<longrightarrow> is_reversed (toCardData rc) = False)"
    by (simp add: toCardData_def or_zero_def or_false_def)
  have iff3: "(spreadType (on_event cl (OnProgress ''cards_selected'' d) s) = three_card
            \<longleftrightarrow> length (cardList_of d) = 3
                \<or> length (cardList_of d) \<noteq> 10 \<and> spreadType s = three_card)"
    unfolding sp by simp
  have iff10: "(spreadType (on_event cl (OnProgress ''cards_selected'' d) s) = celtic_cross
            \<longleftrightarrow> length (cardList_of d) = 10
                \<or> length (cardList_of d) \<noteq> 3 \<and> spreadType s = celtic_cross)"
    unfolding sp by simp
  from sp iff3 iff10 cs ini dflt fresh_state_fields(4) show ?thesis by (simp only: simp_thms)
qed

theorem spread_type_inference_witness:
  "has_cardList \<lparr>d_text = None,
       d_selected_cards = Some (replicate 10 \<lparr>raw_card_id = Some ''c'', raw_id = None,
          raw_card_name_en = None, raw_name = Some ''The Fool'', raw_card_name_cn = None,
          raw_position = None, raw_position_order = None, raw_is_reversed = None,
          raw_image_url = None\<rparr>),
       d_cards = None, d_imagery_description = None\<rparr>
   \<and> spreadType (on_event fresh_closure (OnProgress ''cards_selected''
        \<lparr>d_text = None,
         d_selected_cards = Some (replicate 10 \<lparr>raw_card_id = Some ''c'', raw_id = None,
            raw_card_name_en = None, raw_name = Some ''The Fool'', raw_card_name_cn = None,
            raw_position = None, raw_position_order = None, raw_is_reversed = None,
            raw_image_url = None\<rparr>),
         d_cards = None, d_imagery_description = None\<rparr>) fresh_state) = celtic_cross
   \<and> position_order (toCardData \<lparr>raw_card_id = Some ''c'', raw_id = None,
          raw_card_name_en = None, raw_name = Some ''The Fool'', raw_card_name_cn = None,
          raw_position = None, raw_position_order = None, raw_is_reversed = None,
          raw_image_url = None\<rparr>) = 0
   \<and> is_reversed (toCardData \<lparr>raw_card_id = Some ''c'', raw_id = None,
          raw_card_name_en = None, raw_name = Some ''The Fool'', raw_card_name_cn = None,
          raw_position = None, raw_position_order = None, raw_is_reversed = None,
          raw_image_url = None\<rparr>) = False"
proof -
  have h: "has_cardList \<lparr>d_text = None,
       d_selected_cards = Some (replicate 10 \<lparr>raw_card_id = Some ''c'', raw_id = None,
          raw_card_name_en = None, raw_name = Some ''The Fool'', raw_card_name_cn = None,
          raw_position = None, raw_position_order = None, raw_is_reversed = None,
          raw_image_url = None\<rparr>),
       d_cards = None, d_imagery_description = None\<rparr>"
    by (simp add: has_cardList_def)
  from h spread_type_inference [OF h, where cl = fresh_closure and s = fresh_state
      and rc = "\<lparr>raw_card_id = Some ''c'', raw_id = None,
          raw_card_name_en = None, raw_name = Some ''The Fool'', raw_card_name_cn = None,
          raw_position = None, raw_position_order = None, raw_is_reversed = None,
          raw_image_url = None\<rparr>"]
  show ?thesis by (simp add: cardList_of_def)
qed


section \<open>Properties of the stream parser\<close>

lemma split_nl_nonempty: "split_nl s \<noteq> []"
  by (cases s) simp_all

lemma split_nl_append:
  "split_nl (a @ b)
     = butlast (split_nl a) @ [last (split_nl a) @ hd (split_nl b)] @ tl (split_nl b)"
proof (induction a)
  case Nil
  then show ?case by (simp add: split_nl_nonempty)
next
  case (Cons c a)
  show ?case
  proof (cases "c = newline")
    case True
    with Cons show ?thesis by (simp add: split_nl_nonempty)
  next
    case False
    obtain h t where A: "split_nl a = h # t"
      using split_nl_nonempty [of a] by (cases "split_nl a") auto
    show ?thesis
    proof (cases "t = []")
      case True
      with False A Cons show ?thesis by simp
    next
      case nonempty: False
      with False A Cons show ?thesis by simp
    qed
  qed
qed

lemma split_nl_no_newline: "newline \<notin> set s \<Longrightarrow> split_nl s = [s]"
  by (induction s) auto

lemma last_split_nl_no_newline: "newline \<notin> set (last (split_nl s))"
proof (induction s)
  case Nil
  then show ?case by simp
next
  case (Cons c s)
  obtain h t where A: "split_nl s = h # t"
    using split_nl_nonempty [of s] by (cases "split_nl s") auto
  with Cons show ?case by (cases "t = []") auto
qed

lemma split_nl_resume:
  "split_nl (a @ b) = butlast (split_nl a) @ split_nl (last (split_nl a) @ b)"
proof -
  have "split_nl (last (split_nl a) @ b)
      = [last (split_nl a) @ hd (split_nl b)] @ tl (split_nl b)"
    by (simp add: split_nl_append [of "last (split_nl a)" b]
        split_nl_no_newline [OF last_split_nl_no_newline])
  then show ?thesis by (simp add: split_nl_append [of a b])
qed

lemma butlast_split_nl_resume:
  "butlast (split_nl (a @ b))
     = butlast (split_nl a) @ butlast (split_nl (last (split_nl a) @ b))"
  by (simp add: split_nl_resume [of a b] butlast_append split_nl_nonempty)

lemma last_split_nl_resume:
  "last (split_nl (a @ b)) = last (split_nl (last (split_nl a) @ b))"
  by (simp add: split_nl_resume [of a b] split_nl_nonempty)

lemma process_lines_append:
  "process_lines parse ev (xs @ ys) =
     (let (ev1, calls1) = process_lines parse ev xs;
          (ev2, calls2) = process_lines parse ev1 ys
      in (ev2, calls1 @ calls2))"
  by (induction xs arbitrary: ev) (simp_all add: split_beta Let_def)

lemma read_chunk_append:
  "(let (ps1, calls1) = read_chunk parse ps c1;
        (ps2, calls2) = read_chunk parse ps1 c2
    in (ps2, calls1 @ calls2)) = read_chunk parse ps (c1 @ c2)"
  by (simp add: read_chunk_def Let_def split_beta process_lines_append
      butlast_split_nl_resume [of "buffer ps @ c1" c2]
      last_split_nl_resume [of "buffer ps @ c1" c2] append_assoc [symmetric]
      del: append_assoc)

lemma read_chunk_buffer: "newline \<notin> set (buffer (fst (read_chunk parse ps c)))"
  by (simp add: read_chunk_def Let_def split_beta last_split_nl_no_newline)

lemma read_chunk_empty:
  "newline \<notin> set (buffer ps) \<Longrightarrow> read_chunk parse (ps :: ParserState) [] = (ps, [])"
  by (simp add: read_chunk_def split_nl_no_newline)

lemma read_loop_concat:
  "newline \<notin> set (buffer ps) \<Longrightarrow>
   read_loop parse (ps :: ParserState) chunks = read_chunk parse ps (concat chunks)"
proof (induction chunks arbitrary: ps)
  case Nil
  then show ?case by (simp add: read_chunk_empty)
next
  case (Cons c chunks)
  have "read_loop parse (fst (read_chunk parse ps c)) chunks
      = read_chunk parse (fst (read_chunk parse ps c)) (concat chunks)"
    by (rule Cons.IH) (rule read_chunk_buffer)
  then show ?case
    using read_chunk_append [of parse ps c "concat chunks"]
    by (simp add: split_beta Let_def)
qed

text \<open>C8. Chunk-boundary invariance: two deliveries of the same text, cut into chunks in
  different ways, make \<^verbatim>\<open>createReadingStream\<close> invoke the same callbacks with the same
  arguments in the same order; the invocations are those of the complete lines of the
  whole text, processed from an empty event name.\<close>

theorem chunk_boundary_invariance:
  "concat chunks1 = concat chunks2 \<Longrightarrow>
   createReadingStream parse chunks1 = createReadingStream parse chunks2
   \<and> createReadingStream parse chunks1
       = snd (process_lines parse [] (butlast (split_nl (concat chunks1))))"
proof -
  assume same: "concat chunks1 = concat chunks2"
  have whole: "createReadingStream parse chunks
      = snd (process_lines parse [] (butlast (split_nl (concat chunks))))" for chunks
    by (simp add: createReadingStream_def read_loop_concat read_chunk_def Let_def split_beta)
  from whole [of chunks1] whole [of chunks2] same show ?thesis by (simp only: simp_thms)
qed

theorem chunk_boundary_invariance_witness:
  "concat [''event: pro'', ''gress'' @ [newline] @ ''da'', ''ta: {}'' @ [newline]]
     = concat [''event: progress'' @ [newline], ''data: {}'' @ [newline]]
   \<and> createReadingStream (\<lambda>s. if s = ''{}'' then Some (JObj []) else None)
        [''event: pro'', ''gress'' @ [newline] @ ''da'', ''ta: {}'' @ [newline]]
     = createReadingStream (\<lambda>s. if s = ''{}'' then Some (JObj []) else None)
        [''event: progress'' @ [newline], ''data: {}'' @ [newline]]"
proof -
  have same: "concat [''event: pro'', ''gress'' @ [newline] @ ''da'', ''ta: {}'' @ [newline]]
     = concat [''event: progress'' @ [newline], ''data: {}'' @ [newline]]"
    by simp
  from same chunk_boundary_invariance [OF same] show ?thesis by (simp only: simp_thms)
qed

lemma startsWith_append: "startsWith (p @ s) p"
  by (simp add: startsWith_def)

lemma process_line_data:
  "process_line parse ev (''data: '' @ payload) =
     (if trim payload = [] then (ev, [])
      else (case parse (trim payload) of
              None \<Rightarrow> ([], [])
            | Some data \<Rightarrow> ([], dispatch ev data)))"
  by (simp add: process_line_def startsWith_def Let_def)

lemma dispatch_unknown:
  "ev \<notin> set [''progress'', ''imagery_chunk'', ''interpretation'', ''complete'', ''error'']
   \<Longrightarrow> dispatch ev data = []"
  by (simp add: dispatch_def)


text \<open>C9, as the code has it. A \<^verbatim>\<open>data: \<close> line whose payload is empty after trimming
  invokes no callback and leaves the current event name as it is. One whose payload is not
  empty and fails to parse, or whose current event name is none of \<^verbatim>\<open>progress\<close>,
  \<^verbatim>\<open>imagery_chunk\<close>, \<^verbatim>\<open>interpretation\<close>, \<^verbatim>\<open>complete\<close>, \<^verbatim>\<open>error\<close>, invokes no callback
  and resets the current event name to empty, as every data line with a non-empty payload
  does. In each case the loop goes on with the lines that follow.\<close>

theorem malformed_data_line_ignored:
  "(trim payload = [] \<longrightarrow>
      process_line parse ev (''data: '' @ payload) = (ev, []))
   \<and> (trim payload \<noteq> [] \<and> parse (trim payload) = None \<longrightarrow>
      process_line parse ev (''data: '' @ payload) = ([], []))
   \<and> (trim payload \<noteq> [] \<and>
      ev \<notin> set [''progress'', ''imagery_chunk'', ''interpretation'', ''complete'', ''error'']
      \<longrightarrow> process_line parse ev (''data: '' @ payload) = ([], []))
   \<and> (trim payload \<noteq> [] \<longrightarrow>
      fst (process_line parse ev (''data: '' @ payload)) = [])
   \<and> snd (process_lines parse ev (line # lines))
       = snd (process_line parse ev line)
         @ snd (process_lines parse (fst (process_line parse ev line)) lines)"
proof -
  have unknown: "ev \<notin> set [''progress'', ''imagery_chunk'', ''interpretation'',
        ''complete'', ''error''] \<Longrightarrow>
      process_line parse ev (''data: '' @ payload)
        = (if trim payload = [] then (ev, []) else ([], []))"
    using process_line_data [of parse ev payload]
    by (simp add: dispatch_def split: option.split)
  have goes_on: "snd (process_lines parse ev (line # lines))
       = snd (process_line parse ev line)
         @ snd (process_lines parse (fst (process_line parse ev line)) lines)"
    by (simp add: split_beta Let_def)
  have reset: "trim payload \<noteq> [] \<longrightarrow>
      fst (process_line parse ev (''data: '' @ payload)) = []"
    using process_line_data [of parse ev payload] by (simp split: option.split)
  have empty: "trim payload = [] \<longrightarrow>
      process_line parse ev (''data: '' @ payload) = (ev, [])"
    using process_line_data [of parse ev payload] by simp
  have bad: "trim payload \<noteq> [] \<and> parse (trim payload) = None \<longrightarrow>
      process_line parse ev (''data: '' @ payload) = ([], [])"
    using process_line_data [of parse ev payload] by simp
  from unknown have unk: "trim payload \<noteq> [] \<and>
      ev \<notin> set [''progress'', ''imagery_chunk'', ''interpretation'', ''complete'', ''error'']
      \<longrightarrow> process_line parse ev (''data: '' @ payload) = ([], [])"
    by simp
  from empty bad unk reset goes_on show ?thesis by (simp only: simp_thms)
qed

theorem malformed_data_line_ignored_witness:
  "trim ''  '' = []
   \<and> process_line (\<lambda>s. if s = ''{}'' then Some (JObj []) else None) ''progress''
        (''data: '' @ ''  '') = (''progress'', [])
   \<and> trim [CHR 0xA0] = []
   \<and> process_line (\<lambda>s. if s = ''{}'' then Some (JObj []) else None) ''progress''
        (''data: '' @ [CHR 0xA0]) = (''progress'', [])
   \<and> trim ''{oops'' \<noteq> []
   \<and> process_line (\<lambda>s. if s = ''{}'' then Some (JObj []) else None) ''progress''
        (''data: '' @ ''{oops'') = ([], [])
   \<and> trim (CHR 0xA0 # ''{}'') = ''{}''
   \<and> process_line (\<lambda>s. if s = ''{}'' then Some (JObj []) else None) ''ping''
        (''data: '' @ CHR 0xA0 # ''{}'') = ([], [])"
  using malformed_data_line_ignored
      [where payload = "''  ''" and ev = "''progress''"
        and parse = "\<lambda>s. if s = ''{}'' then Some (JObj []) else None"]
    malformed_data_line_ignored
      [where payload = "[CHR 0xA0]" and ev = "''progress''"
        and parse = "\<lambda>s. if s = ''{}'' then Some (JObj []) else None"]
    malformed_data_line_ignored
      [where payload = "''{oops''" and ev = "''progress''"
        and parse = "\<lambda>s. if s = ''{}'' then Some (JObj []) else None"]
    malformed_data_line_ignored
      [where payload = "CHR 0xA0 # ''{}''" and ev = "''ping''"
        and parse = "\<lambda>s. if s = ''{}'' then Some (JObj []) else None"]
  by (simp add: trim_def is_ws_def)

text \<open>Against C9 as stated: a data line with an empty payload does not reset the current
  event name, so the data line after it is dispatched under the event name that came
  before.\<close>

theorem empty_data_line_keeps_event_name:
  "process_line (\<lambda>s. if s = ''{}'' then Some (JObj []) else None) ''progress'' ''data: ''
     = (''progress'', [])
   \<and> process_lines (\<lambda>s. if s = ''{}'' then Some (JObj []) else None) []
       [''event: progress'', ''data: '', ''data: {}'']
     = ([], [CallProgress (JStr ''unknown'') (JObj [])])"
  by (simp add: process_line_def startsWith_def trim_def is_ws_def dispatch_def js_or_def
      Let_def)


section \<open>The card display\<close>

lemma length_sortedCards: "length (sortedCards s) = length (cards s)"
  by (simp add: sortedCards_def)

lemma card_display_timer_fields:
  "cards (card_display_timer s) = cards s"
  "spreadType (card_display_timer s) = spreadType s"
  "sortedCards (card_display_timer s) = sortedCards s"
  "intervalPerCard (card_display_timer s) = intervalPerCard s"
  "currentStep (card_display_timer s) = currentStep s"
  by (simp_all add: card_display_timer_def sortedCards_def intervalPerCard_def
      totalDisplayTime_def Let_def)

lemma card_display_timer_displayedCards:
  "length (displayedCards s) < length (cards s) \<Longrightarrow>
   displayedCards (card_display_timer s)
     = take (Suc (length (displayedCards s))) (sortedCards s)"
  by (simp add: card_display_timer_def length_sortedCards Let_def)

lemma effect_pending:
  "cards s \<noteq> [] \<Longrightarrow> length (displayedCards s) < length (cards s) \<Longrightarrow>
   card_display_effect s = (s, Some (intervalPerCard s))"
  by (simp add: card_display_effect_def length_sortedCards)


lemma effect_nonempty: "cards s \<noteq> [] \<Longrightarrow> fst (card_display_effect s) = s"
  by (simp add: card_display_effect_def)

lemma step_CardTimer:
  assumes "cards s \<noteq> []" and "length (displayedCards s) < length (cards s)"
  shows "step cl s CardTimer = card_display_timer s"
proof -
  have "apply_action cl CardTimer s = card_display_timer s"
    using assms by (simp add: effect_pending)
  moreover have "cards (card_display_timer s) \<noteq> []"
    using assms by (simp add: card_display_timer_fields)
  ultimately show ?thesis by (simp add: step_def effect_nonempty)
qed

lemma reveal_steps:
  "cards s \<noteq> [] \<Longrightarrow> length (displayedCards s) + Suc k \<le> length (cards s) \<Longrightarrow>
   displayedCards (run cl s (replicate (Suc k) CardTimer))
     = take (length (displayedCards s) + Suc k) (sortedCards s)"
proof (induction k arbitrary: s)
  case 0
  then show ?case
    by (simp add: run_def step_CardTimer card_display_timer_displayedCards)
next
  case (Suc k)
  let ?s1 = "card_display_timer s"
  from Suc.prems have lt: "length (displayedCards s) < length (cards s)" by simp
  have st: "step cl s CardTimer = ?s1" using Suc.prems lt by (simp add: step_CardTimer)
  have len: "length (displayedCards ?s1) = Suc (length (displayedCards s))"
    using lt by (simp add: card_display_timer_displayedCards length_sortedCards)
  have "displayedCards (run cl ?s1 (replicate (Suc k) CardTimer))
      = take (length (displayedCards ?s1) + Suc k) (sortedCards ?s1)"
    using Suc.prems len by (intro Suc.IH) (simp_all add: card_display_timer_fields)
  then show ?case
    using st len by (simp add: run_Cons card_display_timer_fields)
qed


lemma cards_selected_branch_displayedCards:
  "displayedCards (cards_selected_branch d s) =
     (if cardList_of d = [] then displayedCards s
      else map toCardData (take 1 (cardList_of d)))"
  by (cases "cardList_of d") (simp_all add: cards_selected_branch_def Let_def)

lemma step_cards_selected:
  assumes "has_cardList d"
  shows "currentStep (step cl s (Event (OnProgress ''cards_selected'' d))) = ''cards_selected''"
    and "cards (step cl s (Event (OnProgress ''cards_selected'' d)))
          = map toCardData (cardList_of d)"
    and "displayedCards (step cl s (Event (OnProgress ''cards_selected'' d)))
          = map toCardData (take 1 (cardList_of d))"
    and "spreadType (step cl s (Event (OnProgress ''cards_selected'' d))) =
           (if length (cardList_of d) = 3 then three_card
            else if length (cardList_of d) = 10 then celtic_cross
            else spreadType s)"
proof -
  let ?s0 = "onProgress cl ''cards_selected'' d s"
  have s0: "?s0 = cards_selected_branch d (s\<lparr>currentStep := ''cards_selected''\<rparr>)"
    using assms by (simp add: onProgress_def)
  have c: "cards ?s0 = map toCardData (cardList_of d)"
    by (simp add: s0 cards_selected_branch_fields)
  have d0: "displayedCards (fst (card_display_effect ?s0))
      = map toCardData (take 1 (cardList_of d))"
    by (cases "cardList_of d")
      (simp_all add: card_display_effect_def s0 cards_selected_branch_fields
        cards_selected_branch_displayedCards)
  show "currentStep (step cl s (Event (OnProgress ''cards_selected'' d))) = ''cards_selected''"
    by (simp add: step_def effect_fields s0 cards_selected_branch_fields)
  show "cards (step cl s (Event (OnProgress ''cards_selected'' d)))
          = map toCardData (cardList_of d)"
    by (simp add: step_def effect_fields c)
  show "displayedCards (step cl s (Event (OnProgress ''cards_selected'' d)))
          = map toCardData (take 1 (cardList_of d))"
    using d0 by (simp add: step_def)
  show "spreadType (step cl s (Event (OnProgress ''cards_selected'' d))) =
           (if length (cardList_of d) = 3 then three_card
            else if length (cardList_of d) = 10 then celtic_cross
            else spreadType s)"
    by (simp add: step_def effect_fields s0 cards_selected_branch_spreadType)
qed




text \<open>C4, as the code has it. On a \<^verbatim>\<open>cards_selected\<close> event that carries a card list, the
  client sets the current step to \<^verbatim>\<open>cards_selected\<close>, stores the whole selection, with
  defaults filled in, in the order of the payload, and displays the first card of the
  payload at once. With more than one card the card display timeout is then pending; each
  time it fires the displayed list becomes the next longer prefix of the selection sorted
  by position order, and after one firing per remaining card it is the whole selection in
  position order.\<close>

theorem cards_selected_reveal:
  assumes "has_cardList d"
  shows "currentStep (step cl s (Event (OnProgress ''cards_selected'' d))) = ''cards_selected''
    \<and> cards (step cl s (Event (OnProgress ''cards_selected'' d)))
        = map toCardData (cardList_of d)
    \<and> displayedCards (step cl s (Event (OnProgress ''cards_selected'' d)))
        = map toCardData (take 1 (cardList_of d))
    \<and> (1 < length (cardList_of d) \<longrightarrow>
          snd (card_display_effect (step cl s (Event (OnProgress ''cards_selected'' d))))
            = Some (intervalPerCard (step cl s (Event (OnProgress ''cards_selected'' d)))))
    \<and> (Suc k < length (cardList_of d) \<longrightarrow>
          displayedCards (run cl (step cl s (Event (OnProgress ''cards_selected'' d)))
              (replicate (Suc k) CardTimer))
            = take (k + 2) (sort_key position_order (map toCardData (cardList_of d))))
    \<and> displayedCards (run cl (step cl s (Event (OnProgress ''cards_selected'' d)))
          (replicate (length (cardList_of d) - 1) CardTimer))
        = sort_key position_order (map toCardData (cardList_of d))"
proof -
  let ?s1 = "step cl s (Event (OnProgress ''cards_selected'' d))"
  let ?n = "length (cardList_of d)"
  let ?sorted = "sort_key position_order (map toCardData (cardList_of d))"
  note f = step_cards_selected [OF assms, of cl s]
  have sorted: "sortedCards ?s1 = ?sorted"
    by (simp add: sortedCards_def f)
  have steps: "displayedCards (run cl ?s1 (replicate (Suc j) CardTimer)) = take (j + 2) ?sorted"
    if "Suc j < ?n" for j
  proof -
    from that have ne: "cards ?s1 \<noteq> []" by (auto simp add: f)
    from that have len1: "length (displayedCards ?s1) = 1" by (simp add: f)
    from that have "length (displayedCards ?s1) + Suc j \<le> length (cards ?s1)"
      by (simp add: f)
    from reveal_steps [OF ne this, of cl] show ?thesis by (simp add: len1 sorted)
  qed
  have pending: "1 < ?n \<longrightarrow> snd (card_display_effect ?s1) = Some (intervalPerCard ?s1)"
  proof
    assume "1 < ?n"
    then have "cards ?s1 \<noteq> []" "length (displayedCards ?s1) < length (cards ?s1)"
      by (auto simp add: f)
    then show "snd (card_display_effect ?s1) = Some (intervalPerCard ?s1)"
      by (simp add: effect_pending)
  qed
  have final: "displayedCards (run cl ?s1 (replicate (?n - 1) CardTimer)) = ?sorted"
  proof (cases "cardList_of d")
    case Nil
    then show ?thesis by (simp add: run_def f)
  next
    case (Cons c cs)
    show ?thesis
    proof (cases cs)
      case Nil
      with Cons show ?thesis by (simp add: run_def f)
    next
      case (Cons c' cs')
      with \<open>cardList_of d = c # cs\<close> have n: "?n = Suc (Suc (length cs'))" by simp
      then have "Suc (length cs') < ?n" by simp
      from steps [OF this] have "displayedCards (run cl ?s1 (replicate (Suc (length cs')) CardTimer))
          = take ?n ?sorted" by (simp add: n)
      then show ?thesis by (simp add: n)
    qed
  qed
  from steps [of k] have stepk: "Suc k < ?n \<longrightarrow>
      displayedCards (run cl ?s1 (replicate (Suc k) CardTimer)) = take (k + 2) ?sorted"
    by blast
  from f(1) f(2) f(3) pending stepk final show ?thesis by (simp only: simp_thms)
qed

theorem cards_selected_reveal_witness:
  "has_cardList (sample_selection
      [sample_card ''World'' 2, sample_card ''Fool'' 0, sample_card ''Magician'' 1])
   \<and> Suc 1 < length (cardList_of (sample_selection
      [sample_card ''World'' 2, sample_card ''Fool'' 0, sample_card ''Magician'' 1]))
   \<and> displayedCards
        (run fresh_closure
          (step fresh_closure fresh_state (Event (OnProgress ''cards_selected''
            (sample_selection
              [sample_card ''World'' 2, sample_card ''Fool'' 0, sample_card ''Magician'' 1]))))
          (replicate (Suc 1) CardTimer))
      = map toCardData
          [sample_card ''Fool'' 0, sample_card ''Magician'' 1, sample_card ''World'' 2]"
proof -
  have h: "has_cardList (sample_selection
      [sample_card ''World'' 2, sample_card ''Fool'' 0, sample_card ''Magician'' 1])"
    by (simp add: has_cardList_def sample_selection_def)
  from h cards_selected_reveal [OF h, where cl = fresh_closure and s = fresh_state and k = 1]
  show ?thesis
    by (simp add: cardList_of_def sample_selection_def sample_card_def toCardData_def
        or_zero_def or_false_def or_str_def truthy_str_def)
qed

text \<open>Against C4 as stated: with a payload that is not in position order, right after
  the event the displayed list holds the first card of the payload alone and the stored
  list is in payload order; neither is the selection in position order.\<close>

theorem cards_selected_not_position_ordered:
  "displayedCards (step fresh_closure fresh_state (Event (OnProgress ''cards_selected''
      (sample_selection
        [sample_card ''World'' 2, sample_card ''Fool'' 0, sample_card ''Magician'' 1]))))
     = [toCardData (sample_card ''World'' 2)]
   \<and> cards (step fresh_closure fresh_state (Event (OnProgress ''cards_selected''
      (sample_selection
        [sample_card ''World'' 2, sample_card ''Fool'' 0, sample_card ''Magician'' 1]))))
     = map toCardData
         [sample_card ''World'' 2, sample_card ''Fool'' 0, sample_card ''Magician'' 1]
   \<and> sort_key position_order (map toCardData
         [sample_card ''World'' 2, sample_card ''Fool'' 0, sample_card ''Magician'' 1])
     = map toCardData
         [sample_card ''Fool'' 0, sample_card ''Magician'' 1, sample_card ''World'' 2]
   \<and> toCardData (sample_card ''World'' 2) \<noteq> toCardData (sample_card ''Fool'' 0)"
proof -
  have h: "has_cardList (sample_selection
      [sample_card ''World'' 2, sample_card ''Fool'' 0, sample_card ''Magician'' 1])"
    by (simp add: has_cardList_def sample_selection_def)
  from step_cards_selected(2,3) [OF h, of fresh_closure fresh_state]
  show ?thesis
    by (simp add: cardList_of_def sample_selection_def sample_card_def toCardData_def
        or_zero_def or_false_def or_str_def truthy_str_def)
qed







end
